theory Spec2Isabelle
  imports Complex_Main "HOL-Library.Word"
begin

unbundle bit_operations_syntax

chapter \<open>The program\<close>

section \<open>JavaScript strings\<close>

text \<open>
  A JavaScript string is a sequence of UTF-16 code units; \<open>length\<close> counts code units.
  Code units are modelled as natural numbers. Tag and attribute names, which the
  program only compares, are ordinary strings.
\<close>

type_synonym jschar = nat
type_synonym ustring = "jschar list"

definition ascii :: "string \<Rightarrow> ustring" where
  "ascii s = map of_char s"

text \<open>The regular-expression class \<open>\s\<close>, which is also the set that \<open>trim()\<close> strips.\<close>

definition isSpace :: "jschar \<Rightarrow> bool" where
  "isSpace c \<longleftrightarrow>
     c = 9 \<or> c = 10 \<or> c = 11 \<or> c = 12 \<or> c = 13 \<or> c = 32 \<or> c = 160 \<or> c = 5760 \<or>
     (8192 \<le> c \<and> c \<le> 8202) \<or> c = 8232 \<or> c = 8233 \<or> c = 8239 \<or> c = 8287 \<or>
     c = 12288 \<or> c = 65279"

definition trim :: "ustring \<Rightarrow> ustring" where
  "trim s = rev (dropWhile isSpace (rev (dropWhile isSpace s)))"

text \<open>\<open>str.replace(/\s{2,}/g, " ")\<close>: every maximal run of two or more whitespace
  units becomes one space; a single whitespace unit is kept as it is.\<close>

function normalizeSpaces :: "ustring \<Rightarrow> ustring" where
  "normalizeSpaces [] = []"
| "normalizeSpaces (c # cs) =
     (if isSpace c \<and> cs \<noteq> [] \<and> isSpace (hd cs)
      then 32 # normalizeSpaces (dropWhile isSpace cs)
      else c # normalizeSpaces cs)"
  by pat_completeness auto
termination
  by (relation "measure length") (auto simp: length_dropWhile_le le_imp_less_Suc)

text \<open>\<open>str.split(re)\<close> for a regular expression that matches exactly one code unit
  of the class \<open>P\<close>: the pieces between the matches, so one piece more than matches.\<close>

fun splitOn :: "(jschar \<Rightarrow> bool) \<Rightarrow> ustring \<Rightarrow> ustring list" where
  "splitOn P [] = [[]]"
| "splitOn P (c # cs) =
     (if P c then [] # splitOn P cs
      else (case splitOn P cs of [] \<Rightarrow> [[c]] | t # ts \<Rightarrow> (c # t) # ts))"

section \<open>Content scoring of an enqueued element\<close>

text \<open>\<open>REGEXPS.commas\<close>\<close>

definition isComma :: "jschar \<Rightarrow> bool" where
  "isComma c \<longleftrightarrow>
     c = 0x002C \<or> c = 0x060C \<or> c = 0xFE50 \<or> c = 0xFE10 \<or> c = 0xFE11 \<or>
     c = 0x2E41 \<or> c = 0x2E34 \<or> c = 0x2E32 \<or> c = 0xFF0C"

text \<open>
  The scoring callback on the element's inner text: elements under 25 units are
  skipped (\<open>None\<close>); otherwise the score starts at 0 and receives the three increments
  \<^verbatim>\<open>contentScore += 1;\<close>
  \<^verbatim>\<open>contentScore += innerText.split(this.REGEXPS.commas).length;\<close>
  \<^verbatim>\<open>contentScore += Math.min(Math.floor(innerText.length / 100), 3);\<close>
\<close>

definition contentScore :: "ustring \<Rightarrow> int option" where
  "contentScore innerText =
     (if length innerText < 25 then None
      else Some (0 + 1
                 + int (length (splitOn isComma innerText))
                 + min (int (length innerText) div 100) 3))"

text \<open>The number of commas the documentation speaks of.\<close>

definition commaCount :: "ustring \<Rightarrow> nat" where
  "commaCount s = length (filter isComma s)"

section \<open>The DOM\<close>

text \<open>
  A DOM subtree: text nodes and elements. An element has its upper-case tag name,
  its attributes in order (name and value), the transient annotation
  \<open>readability = { contentScore }\<close> when it has been scored, and its child nodes in
  document order. JavaScript numbers are modelled as exact reals.
\<close>

datatype node =
    Text ustring
  | Element (tagName: string) (attributes: "(string \<times> ustring) list")
            (readability: "real option") (childNodes: "node list")

fun isElement :: "node \<Rightarrow> bool" where
  "isElement (Text s) = False"
| "isElement (Element t a r ch) = True"

text \<open>\<open>element.children\<close>: the child nodes that are elements.\<close>

definition children :: "node \<Rightarrow> node list" where
  "children n = (case n of Text s \<Rightarrow> [] | Element t a r ch \<Rightarrow> filter isElement ch)"

fun nodeName :: "node \<Rightarrow> string" where
  "nodeName (Text s) = ''#text''"
| "nodeName (Element t a r ch) = t"

fun textContent :: "node \<Rightarrow> ustring" where
  "textContent (Text s) = s"
| "textContent (Element t a r ch) = concat (map textContent ch)"

text \<open>All element descendants in document order, the node itself excluded.\<close>

fun descendants :: "node \<Rightarrow> node list" where
  "descendants (Text s) = []"
| "descendants (Element t a r ch) =
     concat (map (\<lambda>c. (if isElement c then [c] else []) @ descendants c) ch)"

definition getElementsByTagName :: "node \<Rightarrow> string \<Rightarrow> node list" where
  "getElementsByTagName n tag = filter (\<lambda>e. nodeName e = tag) (descendants n)"

fun attrsOf :: "node \<Rightarrow> (string \<times> ustring) list" where
  "attrsOf (Text s) = []"
| "attrsOf (Element t a r ch) = a"

definition getAttribute :: "node \<Rightarrow> string \<Rightarrow> ustring option" where
  "getAttribute n name = map_of (attrsOf n) name"

text \<open>\<open>className\<close> and \<open>id\<close> reflect the attributes, the empty string when absent.\<close>

definition className :: "node \<Rightarrow> ustring" where
  "className n = (case getAttribute n ''class'' of None \<Rightarrow> [] | Some v \<Rightarrow> v)"


text \<open>Setting an attribute replaces the value of an existing name in place and
  appends a new name at the end.\<close>

fun setAttr :: "string \<Rightarrow> ustring \<Rightarrow> (string \<times> ustring) list \<Rightarrow> (string \<times> ustring) list" where
  "setAttr k v [] = [(k, v)]"
| "setAttr k v ((k', v') # kvs) = (if k' = k then (k, v) # kvs else (k', v') # setAttr k v kvs)"

definition removeAttr :: "string \<Rightarrow> (string \<times> ustring) list \<Rightarrow> (string \<times> ustring) list" where
  "removeAttr k kvs = filter (\<lambda>kv. fst kv \<noteq> k) kvs"

definition upperChar :: "char \<Rightarrow> char" where
  "upperChar c =
     (case map_of (zip ''abcdefghijklmnopqrstuvwxyz'' ''ABCDEFGHIJKLMNOPQRSTUVWXYZ'') c of
        Some u \<Rightarrow> u
      | None \<Rightarrow> c)"

definition toUpperCase :: "string \<Rightarrow> string" where
  "toUpperCase s = map upperChar s"

section \<open>Retagging: \<open>_setNodeTag\<close> and \<open>_replaceNodeTags\<close>\<close>

text \<open>\<open>document.createElement(tag)\<close>: a fresh element without attributes, annotation
  or children.\<close>

definition createElement :: "string \<Rightarrow> node" where
  "createElement tag = Element (toUpperCase tag) [] None []"

text \<open>The loop \<^verbatim>\<open>while (node.firstChild) replacement.appendChild(node.firstChild)\<close>:
  each step moves the first child of the source to the end of the target.\<close>

fun moveChildren :: "node list \<Rightarrow> node list \<Rightarrow> node list" where
  "moveChildren [] target = target"
| "moveChildren (c # cs) target = moveChildren cs (target @ [c])"

text \<open>The loop over \<open>node.attributes\<close> calling \<open>setAttributeNode\<close> with a clone.\<close>

fun copyAttributes :: "(string \<times> ustring) list \<Rightarrow> (string \<times> ustring) list \<Rightarrow> (string \<times> ustring) list" where
  "copyAttributes [] target = target"
| "copyAttributes ((k, v) # kvs) target = copyAttributes kvs (setAttr k v target)"

text \<open>
  \<open>_setNodeTag(node, tag)\<close>. With the bundled parser (\<open>_docJSDOMParser\<close>) the node is
  renamed in place. With a real DOM a replacement is created, the children are moved,
  the annotation is taken over when present and the attributes are copied; the caller
  sees the replacement in the place of the node. Only elements are retagged; a text
  node is returned as it is.
\<close>

fun setNodeTag :: "bool \<Rightarrow> node \<Rightarrow> string \<Rightarrow> node" where
  "setNodeTag docJSDOMParser (Text s) tag = Text s"
| "setNodeTag docJSDOMParser (Element t a r ch) tag =
     (if docJSDOMParser then Element (toUpperCase tag) a r ch
      else (case createElement tag of
              Text s \<Rightarrow> Text s
            | Element t0 a0 r0 ch0 \<Rightarrow>
                (let ch1 = moveChildren ch ch0;
                     r1 = (case r of Some sc \<Rightarrow> Some sc | None \<Rightarrow> r0);
                     a1 = copyAttributes a a0
                 in Element t0 a1 r1 ch1)))"

definition replaceNodeTags :: "bool \<Rightarrow> node list \<Rightarrow> string \<Rightarrow> node list" where
  "replaceNodeTags docJSDOMParser nodeList newTagName =
     map (\<lambda>n. setNodeTag docJSDOMParser n newTagName) nodeList"

section \<open>The retry controller of \<open>_grabArticle\<close>\<close>





text \<open>A JavaScript exception, as a value.\<close>

datatype js_error = TypeError















section \<open>Metadata composition: the byline\<close>

text \<open>A JavaScript value that is a string or \<open>undefined\<close>; the empty string and
  \<open>undefined\<close> are falsy.\<close>

type_synonym jsvalue = "ustring option"

definition truthy :: "jsvalue \<Rightarrow> bool" where
  "truthy v \<longleftrightarrow> (case v of None \<Rightarrow> False | Some s \<Rightarrow> s \<noteq> [])"

text \<open>\<open>a || b\<close>\<close>

definition jsOr :: "jsvalue \<Rightarrow> jsvalue \<Rightarrow> jsvalue" where
  "jsOr a b = (if truthy a then a else b)"

text \<open>
  \<^verbatim>\<open>const articleAuthor = typeof values["article:author"] === "string" &&\<close>
  \<^verbatim>\<open>  !this._isUrl(values["article:author"]) ? values["article:author"] : undefined;\<close>
  The URL test \<open>_isUrl\<close> is a parameter.
\<close>

definition articleAuthor :: "(ustring \<Rightarrow> bool) \<Rightarrow> (string \<rightharpoonup> ustring) \<Rightarrow> jsvalue" where
  "articleAuthor isUrl values =
     (case values ''article:author'' of
        Some v \<Rightarrow> (if \<not> isUrl v then Some v else None)
      | None \<Rightarrow> None)"

text \<open>The priority chain of the byline: the JSON-LD byline, then the harvested meta
  values in the order of the source, \<open>articleAuthor\<close> last.\<close>

definition bylinePriority :: "(ustring \<Rightarrow> bool) \<Rightarrow> jsvalue \<Rightarrow> (string \<rightharpoonup> ustring) \<Rightarrow> jsvalue" where
  "bylinePriority isUrl jsonld_byline values =
     jsOr (jsOr (jsOr (jsOr (jsOr jsonld_byline (values ''dc:creator''))
                            (values ''dcterm:creator''))
                      (values ''author''))
                (values ''parsely-author''))
          (articleAuthor isUrl values)"

text \<open>\<open>_unescapeHtmlEntities\<close> with the entity replacement as a parameter; a falsy value is
  returned as it is.\<close>

definition unescapeHtmlEntities :: "(ustring \<Rightarrow> ustring) \<Rightarrow> jsvalue \<Rightarrow> jsvalue" where
  "unescapeHtmlEntities unescape v = (if truthy v then map_option unescape v else v)"

definition metadataByline ::
  "(ustring \<Rightarrow> bool) \<Rightarrow> (ustring \<Rightarrow> ustring) \<Rightarrow> jsvalue \<Rightarrow> (string \<rightharpoonup> ustring) \<Rightarrow> jsvalue" where
  "metadataByline isUrl unescape jsonld_byline values =
     unescapeHtmlEntities unescape (bylinePriority isUrl jsonld_byline values)"

section \<open>Relative URIs: \<open>toAbsoluteURI\<close> and the \<open>srcset\<close> rewriting\<close>

text \<open>
  The constructor \<open>new URL(uri, baseURI)\<close> followed by \<open>.href\<close> is a parameter
  \<open>url uri baseURI\<close>: \<open>Inr href\<close>, or \<open>Inl\<close> the exception it throws.

  \<open>toAbsoluteURI\<close>: hash links are left alone when the base URI is the document URI;
  otherwise the URI is resolved inside \<^verbatim>\<open>try { ... } catch (ex) { }\<close>, and after a
  caught exception the original is returned.
\<close>

definition charAt0 :: "ustring \<Rightarrow> ustring" where
  "charAt0 s = take 1 s"

definition toAbsoluteURI ::
  "(ustring \<Rightarrow> ustring \<Rightarrow> js_error + ustring) \<Rightarrow> ustring \<Rightarrow> ustring \<Rightarrow> ustring
     \<Rightarrow> js_error + ustring" where
  "toAbsoluteURI url baseURI documentURI uri =
     (if baseURI = documentURI \<and> charAt0 uri = ascii ''#'' then Inr uri
      else (case url uri baseURI of
              Inr href \<Rightarrow> Inr href
            | Inl ex \<Rightarrow> Inr uri))"

text \<open>
  \<open>REGEXPS.srcsetUrl = /(\S+)(\s+[\d.]+[xw])?(\s*(?:,|$))/g\<close>, matched by backtracking.

  Group 2 at the start of \<open>s\<close>: whitespace, then digits and dots, then \<open>x\<close> or \<open>w\<close>.
  Both repetitions are greedy, and giving back a unit never helps, since the unit given
  back is not in the class that must follow.
\<close>

definition isDigitDot :: "jschar \<Rightarrow> bool" where
  "isDigitDot c \<longleftrightarrow> (48 \<le> c \<and> c \<le> 57) \<or> c = 46"

definition isXW :: "jschar \<Rightarrow> bool" where
  "isXW c \<longleftrightarrow> c = 120 \<or> c = 119"

definition matchDescriptor :: "ustring \<Rightarrow> (ustring \<times> ustring) option" where
  "matchDescriptor s =
     (let ws = takeWhile isSpace s; r1 = dropWhile isSpace s;
          ds = takeWhile isDigitDot r1; r2 = dropWhile isDigitDot r1
      in case r2 of
           [] \<Rightarrow> None
         | c # r3 \<Rightarrow> if ws \<noteq> [] \<and> ds \<noteq> [] \<and> isXW c then Some (ws @ ds @ [c], r3) else None)"

text \<open>Group 3: whitespace, then a comma or the end of the string.\<close>

definition matchDelimiter :: "ustring \<Rightarrow> (ustring \<times> ustring) option" where
  "matchDelimiter s =
     (let ws = takeWhile isSpace s; r = dropWhile isSpace s
      in case r of
           [] \<Rightarrow> Some (ws, [])
         | c # r' \<Rightarrow> if c = 44 then Some (ws @ [c], r') else None)"

text \<open>What follows group 1: group 2 is tried first; when it or the delimiter after it
  fails, group 2 is left out (\<open>p2\<close> is then \<open>undefined\<close>, and \<open>p2 || ""\<close> is empty).\<close>

definition matchTail :: "ustring \<Rightarrow> (ustring \<times> ustring \<times> ustring) option" where
  "matchTail s =
     (case (case matchDescriptor s of
              Some (p2, r2) \<Rightarrow>
                (case matchDelimiter r2 of Some (p3, r3) \<Rightarrow> Some (p2, p3, r3) | None \<Rightarrow> None)
            | None \<Rightarrow> None) of
        Some m \<Rightarrow> Some m
      | None \<Rightarrow>
          (case matchDelimiter s of Some (p3, r3) \<Rightarrow> Some ([], p3, r3) | None \<Rightarrow> None))"

text \<open>Group 1, \<open>\S+\<close>: the longest run of non-whitespace first, then one unit less at a
  time, down to one unit.\<close>

fun tryUrl :: "nat \<Rightarrow> ustring \<Rightarrow> (ustring \<times> ustring \<times> ustring \<times> ustring) option" where
  "tryUrl 0 s = None"
| "tryUrl (Suc k) s =
     (case matchTail (drop (Suc k) s) of
        Some (p2, p3, rest) \<Rightarrow> Some (take (Suc k) s, p2, p3, rest)
      | None \<Rightarrow> tryUrl k s)"

definition matchAt :: "ustring \<Rightarrow> (ustring \<times> ustring \<times> ustring \<times> ustring) option" where
  "matchAt s = tryUrl (length (takeWhile (\<lambda>c. \<not> isSpace c) s)) s"

lemma matchDescriptor_decomp: "matchDescriptor s = Some (p2, r) \<Longrightarrow> s = p2 @ r"
proof -
  assume a: "matchDescriptor s = Some (p2, r)"
  have s1: "s = takeWhile isSpace s @ dropWhile isSpace s" by simp
  have s2: "dropWhile isSpace s =
      takeWhile isDigitDot (dropWhile isSpace s) @ dropWhile isDigitDot (dropWhile isSpace s)"
    by simp
  from a obtain c where
    "dropWhile isDigitDot (dropWhile isSpace s) = c # r"
    "p2 = takeWhile isSpace s @ takeWhile isDigitDot (dropWhile isSpace s) @ [c]"
    by (auto simp: matchDescriptor_def Let_def split: list.splits if_splits)
  with s1 s2 show ?thesis
    by (metis append.assoc append_Cons append_Nil)
qed

lemma matchDelimiter_decomp: "matchDelimiter s = Some (p3, r) \<Longrightarrow> s = p3 @ r"
proof -
  assume a: "matchDelimiter s = Some (p3, r)"
  have s1: "s = takeWhile isSpace s @ dropWhile isSpace s" by simp
  from a have "(dropWhile isSpace s = [] \<and> p3 = takeWhile isSpace s \<and> r = [])
     \<or> (\<exists>c. dropWhile isSpace s = c # r \<and> p3 = takeWhile isSpace s @ [c])"
    by (auto simp: matchDelimiter_def Let_def split: list.splits if_splits)
  with s1 show ?thesis
    by (metis append.assoc append_Cons append_Nil append_Nil2)
qed

lemma matchTail_decomp: "matchTail s = Some (p2, p3, r) \<Longrightarrow> s = p2 @ p3 @ r"
  by (auto simp: matchTail_def split: option.splits prod.splits
      dest!: matchDescriptor_decomp matchDelimiter_decomp)

lemma tryUrl_decomp:
  "tryUrl k s = Some (p1, p2, p3, r) \<Longrightarrow> k \<le> length s \<Longrightarrow> s = p1 @ p2 @ p3 @ r \<and> p1 \<noteq> []"
proof (induction k)
  case 0
  then show ?case by simp
next
  case (Suc k)
  show ?case
  proof (cases "matchTail (drop (Suc k) s)")
    case None
    with Suc show ?thesis by simp
  next
    case (Some m)
    obtain q2 q3 q where m: "m = (q2, q3, q)" by (cases m)
    from Some m Suc.prems(1) have eq: "p1 = take (Suc k) s" "p2 = q2" "p3 = q3" "r = q"
      by simp_all
    from Some m have "drop (Suc k) s = q2 @ q3 @ q" by (simp add: matchTail_decomp)
    then have "s = take (Suc k) s @ q2 @ q3 @ q"
      by (metis append_take_drop_id)
    moreover from Suc.prems(2) have "take (Suc k) s \<noteq> []" by auto
    ultimately show ?thesis using eq by simp
  qed
qed

lemma matchAt_decomp:
  "matchAt s = Some (p1, p2, p3, r) \<Longrightarrow> s = p1 @ p2 @ p3 @ r \<and> p1 \<noteq> []"
  unfolding matchAt_def
  by (rule tryUrl_decomp) (auto simp: length_takeWhile_le)

lemma matchAt_shorter: "matchAt s = Some (p1, p2, p3, r) \<Longrightarrow> length r < length s"
proof -
  assume "matchAt s = Some (p1, p2, p3, r)"
  then have "s = p1 @ p2 @ p3 @ r" "p1 \<noteq> []" by (auto dest: matchAt_decomp)
  then have "length s = length p1 + length p2 + length p3 + length r" "0 < length p1"
    by (metis length_append add.assoc, simp)
  then show ?thesis by simp
qed

text \<open>
  \<open>srcset.replace(REGEXPS.srcsetUrl, function (_, p1, p2, p3) { return f(p1) + (p2 || "") + p3; })\<close>:
  the leftmost match from the current position is replaced and the search goes on
  behind it; a unit where no match starts is copied. An exception of the callback
  leaves the replacement.
\<close>

function srcsetReplace :: "(ustring \<Rightarrow> js_error + ustring) \<Rightarrow> ustring \<Rightarrow> js_error + ustring" where
  "srcsetReplace f [] = Inr []"
| "srcsetReplace f (c # cs) =
     (case matchAt (c # cs) of
        Some (p1, p2, p3, rest) \<Rightarrow>
          (case f p1 of
             Inl ex \<Rightarrow> Inl ex
           | Inr u \<Rightarrow>
               (case srcsetReplace f rest of
                  Inl ex \<Rightarrow> Inl ex
                | Inr t \<Rightarrow> Inr (u @ p2 @ p3 @ t)))
      | None \<Rightarrow>
          (case srcsetReplace f cs of
             Inl ex \<Rightarrow> Inl ex
           | Inr t \<Rightarrow> Inr (c # t)))"
  by pat_completeness auto
termination
  by (relation "measure (\<lambda>(f, s). length s)") (auto dest: matchAt_shorter)

text \<open>The URLs (group 1) of the matches that the replacement visits.\<close>

function srcsetCandidates :: "ustring \<Rightarrow> ustring list" where
  "srcsetCandidates [] = []"
| "srcsetCandidates (c # cs) =
     (case matchAt (c # cs) of
        Some (p1, p2, p3, rest) \<Rightarrow> p1 # srcsetCandidates rest
      | None \<Rightarrow> srcsetCandidates cs)"
  by pat_completeness auto
termination
  by (relation "measure length") (auto dest: matchAt_shorter)

text \<open>The rewriting of the attributes: \<open>href\<close> of a link that is not a \<open>javascript:\<close>
  link, \<open>src\<close> and \<open>poster\<close> of a media element go through \<open>toAbsoluteURI\<close>; \<open>srcset\<close>
  goes through the replacement with \<open>toAbsoluteURI\<close> on each URL.\<close>

definition rewriteUriAttribute ::
  "(ustring \<Rightarrow> ustring \<Rightarrow> js_error + ustring) \<Rightarrow> ustring \<Rightarrow> ustring \<Rightarrow> ustring
     \<Rightarrow> js_error + ustring" where
  "rewriteUriAttribute url baseURI documentURI v = toAbsoluteURI url baseURI documentURI v"

definition rewriteSrcset ::
  "(ustring \<Rightarrow> ustring \<Rightarrow> js_error + ustring) \<Rightarrow> ustring \<Rightarrow> ustring \<Rightarrow> ustring
     \<Rightarrow> js_error + ustring" where
  "rewriteSrcset url baseURI documentURI srcset =
     srcsetReplace (toAbsoluteURI url baseURI documentURI) srcset"

section \<open>Word counting and inner text\<close>

text \<open>\<open>str.split(/\s+/)\<close>: the pieces between the maximal runs of whitespace. A
  whitespace unit followed by another one continues its run; the last unit of a run
  starts a new piece.\<close>

fun splitWs :: "ustring \<Rightarrow> ustring list" where
  "splitWs [] = [[]]"
| "splitWs (c # cs) =
     (if isSpace c then (if cs \<noteq> [] \<and> isSpace (hd cs) then splitWs cs else [] # splitWs cs)
      else (case splitWs cs of [] \<Rightarrow> [[c]] | t # ts \<Rightarrow> (c # t) # ts))"

text \<open>\<^verbatim>\<open>function wordCount(str) { return str.split(/\s+/).length; }\<close>\<close>

definition wordCount :: "ustring \<Rightarrow> nat" where
  "wordCount str = length (splitWs str)"

text \<open>Modelled from the spec: \<open>_getInnerText\<close> is not part of the documented excerpts;
  the spec describes it as the text content, trimmed and whitespace-normalized.\<close>

definition getInnerText :: "node \<Rightarrow> ustring" where
  "getInnerText e = normalizeSpaces (trim (textContent e))"

section \<open>The article title heuristic\<close>

text \<open>The separator characters: vertical bar, hyphen, en dash (U+2013), em dash
  (U+2014), backslash, slash, greater-than and the right guillemet (U+00BB); the last
  four are the hierarchical ones.\<close>

definition isTitleSeparator :: "jschar \<Rightarrow> bool" where
  "isTitleSeparator c \<longleftrightarrow>
     c = 124 \<or> c = 45 \<or> c = 0x2013 \<or> c = 0x2014 \<or> c = 92 \<or> c = 47 \<or> c = 62 \<or> c = 0xBB"

definition isHierarchicalSeparator :: "jschar \<Rightarrow> bool" where
  "isHierarchicalSeparator c \<longleftrightarrow> c = 92 \<or> c = 47 \<or> c = 62 \<or> c = 0xBB"

text \<open>\<open>/\s[C]\s/.test(str)\<close> for a class \<open>C\<close>.\<close>

fun testSeparator :: "(jschar \<Rightarrow> bool) \<Rightarrow> ustring \<Rightarrow> bool" where
  "testSeparator C (a # b # c # rest) =
     ((isSpace a \<and> C b \<and> isSpace c) \<or> testSeparator C (b # c # rest))"
| "testSeparator C s = False"

text \<open>\<open>Array.from(str.matchAll(/\s[seps]\s/gi))\<close>, each match by its index: after a
  match the search goes on behind it.\<close>

fun separatorMatches :: "nat \<Rightarrow> ustring \<Rightarrow> nat list" where
  "separatorMatches i (a # b # c # rest) =
     (if isSpace a \<and> isTitleSeparator b \<and> isSpace c then i # separatorMatches (i + 3) rest
      else separatorMatches (i + 1) (b # c # rest))"
| "separatorMatches i s = []"

text \<open>\<open>str.replace(/\s[seps]\s/g, "")\<close>\<close>

fun stripSeparators :: "ustring \<Rightarrow> ustring" where
  "stripSeparators (a # b # c # rest) =
     (if isSpace a \<and> isTitleSeparator b \<and> isSpace c then stripSeparators rest
      else a # stripSeparators (b # c # rest))"
| "stripSeparators s = s"

text \<open>\<open>str.replace(/^[^seps]*[seps]/gi, "")\<close>: everything up to and including the
  first separator character; nothing when there is none.\<close>

definition removeFirstPart :: "ustring \<Rightarrow> ustring" where
  "removeFirstPart s =
     (case dropWhile (\<lambda>c. \<not> isTitleSeparator c) s of [] \<Rightarrow> s | c # rest \<Rightarrow> rest)"

fun str_includes :: "ustring \<Rightarrow> ustring \<Rightarrow> bool" where
  "str_includes [] pat = (pat = [])"
| "str_includes (c # cs) pat = (take (length pat) (c # cs) = pat \<or> str_includes cs pat)"

text \<open>\<open>indexOf\<close> and \<open>lastIndexOf\<close> of one code unit, -1 when it does not occur.\<close>

fun indexOfFrom :: "nat \<Rightarrow> jschar \<Rightarrow> ustring \<Rightarrow> int" where
  "indexOfFrom i c [] = -1"
| "indexOfFrom i c (x # xs) = (if x = c then int i else indexOfFrom (i + 1) c xs)"

fun lastIndexOfFrom :: "nat \<Rightarrow> jschar \<Rightarrow> ustring \<Rightarrow> int" where
  "lastIndexOfFrom i c [] = -1"
| "lastIndexOfFrom i c (x # xs) =
     (let r = lastIndexOfFrom (i + 1) c xs in if 0 \<le> r then r else if x = c then int i else -1)"

definition indexOf :: "ustring \<Rightarrow> jschar \<Rightarrow> int" where
  "indexOf s c = indexOfFrom 0 c s"

definition lastIndexOf :: "ustring \<Rightarrow> jschar \<Rightarrow> int" where
  "lastIndexOf s c = lastIndexOfFrom 0 c s"

text \<open>\<open>str.substring(start)\<close> and \<open>str.substring(0, end)\<close> (also \<open>substr(0, n)\<close>);
  a negative argument counts as 0.\<close>

definition substringFrom :: "ustring \<Rightarrow> int \<Rightarrow> ustring" where
  "substringFrom s start = drop (nat start) s"

definition substringTo :: "ustring \<Rightarrow> int \<Rightarrow> ustring" where
  "substringTo s e = take (nat e) s"

text \<open>What the heuristic reads of the document: its title and its tree.\<close>

record document =
  title :: ustring
  documentElement :: node

text \<open>The final validation: trim, normalize, and revert to the original title when the
  condition of the source holds.\<close>

definition finalValidation :: "ustring \<Rightarrow> ustring \<Rightarrow> bool \<Rightarrow> ustring" where
  "finalValidation curTitle0 origTitle titleHadHierarchicalSeparators =
     (let curTitle = normalizeSpaces (trim curTitle0);
          curTitleWordCount = int (wordCount curTitle)
      in if curTitleWordCount \<le> 4 \<and>
            (\<not> titleHadHierarchicalSeparators \<or>
             curTitleWordCount \<noteq> int (wordCount (stripSeparators origTitle)) - 1)
         then origTitle else curTitle)"

text \<open>\<open>_getArticleTitle\<close>: the three branches, each giving the current title and
  whether a hierarchical separator was seen, then the final validation.\<close>

definition getArticleTitle :: "document \<Rightarrow> js_error + ustring" where
  "getArticleTitle doc =
     (let origTitle = trim (title doc); curTitle = origTitle in
      if testSeparator isTitleSeparator curTitle then
        (let titleHadHierarchicalSeparators = testSeparator isHierarchicalSeparator curTitle;
             allSeparators = separatorMatches 0 origTitle
         in case rev allSeparators of
              [] \<Rightarrow> Inl TypeError
            | lastIndex # others \<Rightarrow>
                (let curTitle1 = substringTo origTitle (int lastIndex);
                     curTitle2 = (if wordCount curTitle1 < 3 then removeFirstPart origTitle
                                  else curTitle1)
                 in Inr (finalValidation curTitle2 origTitle titleHadHierarchicalSeparators)))
      else if str_includes curTitle (ascii '': '') then
        (let headings = filter (\<lambda>e. nodeName e = ''H1'' \<or> nodeName e = ''H2'')
                          (descendants (documentElement doc));
             trimmedTitle = trim curTitle;
             match = list_ex (\<lambda>heading. trim (textContent heading) = trimmedTitle) headings
         in if \<not> match then
              (let curTitle1 = substringFrom origTitle (lastIndexOf origTitle 58 + 1);
                   curTitle2 =
                     (if wordCount curTitle1 < 3
                      then substringFrom origTitle (indexOf origTitle 58 + 1)
                      else if wordCount (substringTo origTitle (indexOf origTitle 58)) > 5
                      then origTitle
                      else curTitle1)
               in Inr (finalValidation curTitle2 origTitle False))
            else Inr (finalValidation curTitle origTitle False))
      else if length curTitle > 150 \<or> length curTitle < 15 then
        (let hOnes = getElementsByTagName (documentElement doc) ''H1''
         in if length hOnes = 1
            then Inr (finalValidation (getInnerText (hd hOnes)) origTitle False)
            else Inr (finalValidation curTitle origTitle False))
      else Inr (finalValidation curTitle origTitle False))"

section \<open>Link density\<close>

text \<open>Modelled from the spec: \<open>REGEXPS.hashUrl\<close> is not part of the documented
  excerpts; the spec gives it as \<open>^#.+\<close>: a \<open>#\<close> followed by at least one unit that is
  not a line terminator.\<close>

definition isLineTerminator :: "jschar \<Rightarrow> bool" where
  "isLineTerminator c \<longleftrightarrow> c = 10 \<or> c = 13 \<or> c = 0x2028 \<or> c = 0x2029"

definition hashUrl_test :: "ustring \<Rightarrow> bool" where
  "hashUrl_test s = (case s of a # b # rest \<Rightarrow> a = 35 \<and> \<not> isLineTerminator b | _ \<Rightarrow> False)"

text \<open>\<^verbatim>\<open>var coefficient = href && this.REGEXPS.hashUrl.test(href) ? 0.3 : 1;\<close>\<close>

definition linkCoefficient :: "node \<Rightarrow> real" where
  "linkCoefficient linkNode =
     (let href = getAttribute linkNode ''href''
      in if truthy href \<and> hashUrl_test (case href of Some h \<Rightarrow> h | None \<Rightarrow> []) then 0.3 else 1)"

text \<open>\<open>_getLinkDensity(element)\<close>: the loop over \<open>element.getElementsByTagName("a")\<close>
  adds to \<open>linkLength\<close>, starting from 0.\<close>

definition getLinkDensity :: "node \<Rightarrow> real" where
  "getLinkDensity element =
     (let textLength = length (getInnerText element) in
      if textLength = 0 then 0
      else (let linkLength =
                  foldl (\<lambda>linkLength linkNode.
                           linkLength + real (length (getInnerText linkNode)) * linkCoefficient linkNode)
                        0 (getElementsByTagName element ''A'')
            in linkLength / real textLength))"

text \<open>No \<open>a\<close> element below the node has an \<open>a\<close> element below itself.\<close>

definition noNestedLinks :: "node \<Rightarrow> bool" where
  "noNestedLinks element =
     list_all (\<lambda>linkNode. getElementsByTagName linkNode ''A'' = [])
       (getElementsByTagName element ''A'')"

section \<open>The length of a normalized inner text\<close>

text \<open>The length of \<open>normalizeSpaces (trim s)\<close>, unit by unit. \<open>innerLength\<close> counts
  behind a unit that is not whitespace: every other such unit counts 1, and so does
  every run of whitespace that is followed by one.\<close>

fun innerLength :: "ustring \<Rightarrow> nat" where
  "innerLength [] = 0"
| "innerLength (c # cs) =
     (if isSpace c
      then (if list_all isSpace cs then 0
            else if isSpace (hd cs) then innerLength cs else Suc (innerLength cs))
      else Suc (innerLength cs))"

fun normalizedLength :: "ustring \<Rightarrow> nat" where
  "normalizedLength [] = 0"
| "normalizedLength (c # cs) =
     (if isSpace c then normalizedLength cs else Suc (innerLength cs))"

definition trimEnd :: "ustring \<Rightarrow> ustring" where
  "trimEnd s = rev (dropWhile isSpace (rev s))"

section \<open>Sibling assembly\<close>

text \<open>The annotation of a node; a text node has none.\<close>

fun readabilityOf :: "node \<Rightarrow> real option" where
  "readabilityOf (Text s) = None"
| "readabilityOf (Element t a r ch) = r"

definition ALTER_TO_DIV_EXCEPTIONS :: "string list" where
  "ALTER_TO_DIV_EXCEPTIONS = [''DIV'', ''ARTICLE'', ''SECTION'', ''P'', ''OL'', ''UL'']"

text \<open>\<^verbatim>\<open>nodeContent.search(/\.( |$)/) !== -1\<close>: some period is followed by a space or
  ends the string.\<close>

fun searchSentenceEnd :: "ustring \<Rightarrow> bool" where
  "searchSentenceEnd [] = False"
| "searchSentenceEnd (c # cs) =
     ((c = 46 \<and> (case cs of [] \<Rightarrow> True | d # ds \<Rightarrow> d = 32)) \<or> searchSentenceEnd cs)"

text \<open>
  The decision \<open>append\<close> for one sibling. \<open>isTop\<close> says that the sibling is the object
  \<open>topCandidate\<close> itself (\<open>sibling === topCandidate\<close>); \<open>topScore\<close> is
  \<open>topCandidate.readability.contentScore\<close>.
\<close>

definition siblingAppend :: "real \<Rightarrow> real \<Rightarrow> node \<Rightarrow> bool \<Rightarrow> node \<Rightarrow> bool" where
  "siblingAppend siblingScoreThreshold topScore topCandidate isTop sibling =
     (if isTop then True
      else
        (let contentBonus =
               (if className sibling = className topCandidate \<and> className topCandidate \<noteq> []
                then 0 + topScore * 0.2 else 0)
         in if (case readabilityOf sibling of
                  None \<Rightarrow> False
                | Some sc \<Rightarrow> sc + contentBonus \<ge> siblingScoreThreshold)
            then True
            else if nodeName sibling = ''P'' then
              (let linkDensity = getLinkDensity sibling;
                   nodeContent = getInnerText sibling;
                   nodeLength = length nodeContent
               in if nodeLength > 80 \<and> linkDensity < 0.25 then True
                  else if nodeLength < 80 \<and> nodeLength > 0 \<and> linkDensity = 0 \<and>
                          searchSentenceEnd nodeContent
                  then True
                  else False)
            else False))"

text \<open>The normalisation of a sibling that is appended.\<close>

definition normalizeSibling :: "bool \<Rightarrow> node \<Rightarrow> node" where
  "normalizeSibling docJSDOMParser sibling =
     (if nodeName sibling \<notin> set ALTER_TO_DIV_EXCEPTIONS
      then setNodeTag docJSDOMParser sibling ''DIV'' else sibling)"

text \<open>
  The loop \<^verbatim>\<open>for (var s = 0, sl = siblings.length; s < sl; s++)\<close> over the live list
  of the parent's children, each paired with its \<open>isTop\<close> mark. Appending moves the
  sibling out of the parent, after which \<^verbatim>\<open>s -= 1; sl -= 1;\<close> and then the
  \<open>s++\<close> of the loop happen. The result is the children of \<open>articleContent\<close> and what
  is left in the parent.
\<close>

function siblingLoop ::
  "bool \<Rightarrow> node \<Rightarrow> real \<Rightarrow> real \<Rightarrow> int \<Rightarrow> int \<Rightarrow> (bool \<times> node) list \<Rightarrow> node list
     \<Rightarrow> js_error + (node list \<times> (bool \<times> node) list)" where
  "siblingLoop docJSDOMParser topCandidate topScore siblingScoreThreshold s sl siblings
       articleContent =
     (if s < sl then
        (if 0 \<le> s \<and> nat s < length siblings then
           (case siblings ! nat s of (isTop, sibling) \<Rightarrow>
              if siblingAppend siblingScoreThreshold topScore topCandidate isTop sibling then
                siblingLoop docJSDOMParser topCandidate topScore siblingScoreThreshold
                  (s - 1 + 1) (sl - 1)
                  (take (nat s) siblings @ drop (Suc (nat s)) siblings)
                  (articleContent @ [normalizeSibling docJSDOMParser sibling])
              else
                siblingLoop docJSDOMParser topCandidate topScore siblingScoreThreshold
                  (s + 1) sl siblings articleContent)
         else Inl TypeError)
      else Inr (articleContent, siblings))"
  by pat_completeness auto
termination
  by (relation "measure (\<lambda>(m, tc, ts, th, s, sl, sibs, art). nat (sl - s))") auto

declare siblingLoop.simps [simp del]

text \<open>The threshold and the loop; reading \<open>contentScore\<close> of a top candidate without
  annotation raises.\<close>

definition assembleSiblings ::
  "bool \<Rightarrow> node \<Rightarrow> (bool \<times> node) list \<Rightarrow> js_error + (node list \<times> (bool \<times> node) list)" where
  "assembleSiblings docJSDOMParser topCandidate siblings =
     (case readabilityOf topCandidate of
        None \<Rightarrow> Inl TypeError
      | Some topScore \<Rightarrow>
          (let siblingScoreThreshold = max 10 (topScore * 0.2)
           in siblingLoop docJSDOMParser topCandidate topScore siblingScoreThreshold
                0 (int (length siblings)) siblings []))"

text \<open>The children of the parent with the mark on the \<open>k\<close>-th one.\<close>

definition markTop :: "nat \<Rightarrow> node list \<Rightarrow> (bool \<times> node) list" where
  "markTop k cs = map (\<lambda>(i, c). (i = k, c)) (enumerate 0 cs)"

text \<open>The condition of the claim, in the claim's words: the top candidate itself; or
  a sibling whose score plus bonus reaches the threshold; or a \<open>P\<close> whose text is longer
  than 80 with link density below 0.25, or has 1 to 79 units, link density 0 and a
  period followed by a space or the end.\<close>

definition claimedAppend :: "real \<Rightarrow> node \<Rightarrow> bool \<Rightarrow> node \<Rightarrow> bool" where
  "claimedAppend topScore topCandidate isTop sibling \<longleftrightarrow>
     isTop
     \<or> (case readabilityOf sibling of
           None \<Rightarrow> False
         | Some sc \<Rightarrow>
             sc
               + (if className sibling = className topCandidate \<and> className topCandidate \<noteq> []
                  then topScore * 0.2 else 0)
             \<ge> max 10 (topScore * 0.2))
     \<or> (nodeName sibling = ''P'' \<and>
          ((length (getInnerText sibling) > 80 \<and> getLinkDensity sibling < 0.25)
           \<or> (1 \<le> length (getInnerText sibling) \<and> length (getInnerText sibling) \<le> 79 \<and>
               getLinkDensity sibling = 0 \<and> searchSentenceEnd (getInnerText sibling))))"

section \<open>Phrasing content and single-tag elements\<close>

fun childNodesOf :: "node \<Rightarrow> node list" where
  "childNodesOf (Text s) = []"
| "childNodesOf (Element t a r ch) = ch"

definition PHRASING_ELEMS :: "string list" where
  "PHRASING_ELEMS =
     [''ABBR'', ''AUDIO'', ''B'', ''BDO'', ''BR'', ''BUTTON'', ''CITE'', ''CODE'', ''DATA'',
      ''DATALIST'', ''DFN'', ''EM'', ''EMBED'', ''I'', ''IMG'', ''INPUT'', ''KBD'', ''LABEL'',
      ''MARK'', ''MATH'', ''METER'', ''NOSCRIPT'', ''OBJECT'', ''OUTPUT'', ''PROGRESS'',
      ''Q'', ''RUBY'', ''SAMP'', ''SCRIPT'', ''SELECT'', ''SMALL'', ''SPAN'', ''STRONG'',
      ''SUB'', ''SUP'', ''TEXTAREA'', ''TIME'', ''VAR'', ''WBR'']"

text \<open>\<open>_isPhrasingContent(node)\<close>: a text node, an element of the list, or an \<open>A\<close>,
  \<open>DEL\<close> or \<open>INS\<close> all of whose child nodes are phrasing content.\<close>

fun isPhrasingContent :: "node \<Rightarrow> bool" where
  "isPhrasingContent (Text s) = True"
| "isPhrasingContent (Element t a r ch) =
     (t \<in> set PHRASING_ELEMS \<or>
      ((t = ''A'' \<or> t = ''DEL'' \<or> t = ''INS'') \<and> list_all isPhrasingContent ch))"

text \<open>
  \<open>_hasSingleTagInsideElement(element, tag)\<close>: exactly one element child, with the given
  tag, and no text node child whose text matches \<open>REGEXPS.hasContent\<close>. That regular
  expression is not in the documented excerpts and is the parameter \<open>hasContent\<close>.
\<close>

definition hasSingleTagInsideElement :: "(ustring \<Rightarrow> bool) \<Rightarrow> node \<Rightarrow> string \<Rightarrow> bool" where
  "hasSingleTagInsideElement hasContent element tag =
     (if length (children element) \<noteq> 1 \<or> nodeName (hd (children element)) \<noteq> tag then False
      else \<not> list_ex (\<lambda>node. \<not> isElement node \<and> hasContent (textContent node))
                 (childNodesOf element))"

definition firstElementChild :: "node \<Rightarrow> node option" where
  "firstElementChild n = (case children n of [] \<Rightarrow> None | c # cs \<Rightarrow> Some c)"

section \<open>Single-cell tables\<close>

text \<open>
  The callback of the last step of \<open>_prepArticle\<close> on one table: the element that
  replaces the table, or \<open>None\<close> when the table is left alone. (\<open>firstElementChild\<close> is
  read only behind a successful single-tag test, so it is never \<open>null\<close> there.)
\<close>

definition singleCellReplacement :: "bool \<Rightarrow> (ustring \<Rightarrow> bool) \<Rightarrow> node \<Rightarrow> node option" where
  "singleCellReplacement docJSDOMParser hasContent table =
     (case (if hasSingleTagInsideElement hasContent table ''TBODY''
            then firstElementChild table else Some table) of
        None \<Rightarrow> None
      | Some tbody \<Rightarrow>
          if hasSingleTagInsideElement hasContent tbody ''TR'' then
            (case firstElementChild tbody of
               None \<Rightarrow> None
             | Some row \<Rightarrow>
                 if hasSingleTagInsideElement hasContent row ''TD'' then
                   (case firstElementChild row of
                      None \<Rightarrow> None
                    | Some cell \<Rightarrow>
                        Some (setNodeTag docJSDOMParser cell
                                (if list_all isPhrasingContent (childNodesOf cell)
                                 then ''P'' else ''DIV'')))
                 else None)
          else None)"

text \<open>\<open>table.parentNode.replaceChild(cell, table)\<close>, seen from the parent: what stands
  in the place of a child after the callback.\<close>

definition replaceTable :: "bool \<Rightarrow> (ustring \<Rightarrow> bool) \<Rightarrow> node \<Rightarrow> node" where
  "replaceTable docJSDOMParser hasContent c =
     (if nodeName c = ''TABLE''
      then (case singleCellReplacement docJSDOMParser hasContent c of
              Some cell \<Rightarrow> cell
            | None \<Rightarrow> c)
      else c)"

fun nodeCount :: "node \<Rightarrow> nat" where
  "nodeCount (Text s) = 1"
| "nodeCount (Element t a r ch) = Suc (sum_list (map nodeCount ch))"

lemma nodeCount_child: "c \<in> set ch \<Longrightarrow> nodeCount c < nodeCount (Element t a r ch)"
  by (simp add: member_le_sum_list less_Suc_eq_le)

lemma nodeCount_firstElementChild: "firstElementChild n = Some c \<Longrightarrow> nodeCount c < nodeCount n"
proof -
  assume a: "firstElementChild n = Some c"
  then have "c \<in> set (children n)"
    by (auto simp: firstElementChild_def split: list.splits)
  then obtain t a r ch where "n = Element t a r ch" "c \<in> set ch"
    by (cases n) (auto simp: children_def)
  then show ?thesis by (metis nodeCount_child)
qed

lemma moveChildren_append: "moveChildren cs target = target @ cs"
  by (induction cs arbitrary: target) auto

lemma nodeCount_setNodeTag [simp]: "nodeCount (setNodeTag m n tag) = nodeCount n"
  by (cases n) (auto simp: createElement_def moveChildren_append)

lemma nodeCount_singleCellReplacement:
  "singleCellReplacement m hc table = Some x \<Longrightarrow> nodeCount x < nodeCount table"
  by (auto simp: singleCellReplacement_def split: if_splits option.splits
      dest!: nodeCount_firstElementChild)

lemma nodeCount_replaceTable: "nodeCount (replaceTable m hc c) \<le> nodeCount c"
  by (auto simp: replaceTable_def split: option.splits
      dest!: nodeCount_singleCellReplacement)

text \<open>
  The step over the whole article content: the tables are visited in document order,
  an outer table before the tables inside it, and a table inside a flattened cell is
  visited in its new place.
\<close>

function convertSingleCellTables :: "bool \<Rightarrow> (ustring \<Rightarrow> bool) \<Rightarrow> node \<Rightarrow> node" where
  "convertSingleCellTables docJSDOMParser hasContent (Text s) = Text s"
| "convertSingleCellTables docJSDOMParser hasContent (Element t a r ch) =
     Element t a r
       (map (\<lambda>c. convertSingleCellTables docJSDOMParser hasContent
                    (replaceTable docJSDOMParser hasContent c)) ch)"
  by pat_completeness auto
termination
proof (relation "measure (\<lambda>(m, hc, n). nodeCount n)", goal_cases)
  case 1
  show ?case by simp
next
  case (2 m hc t a r ch c)
  have "nodeCount (replaceTable m hc c) \<le> nodeCount c" by (rule nodeCount_replaceTable)
  also from 2 have "\<dots> < nodeCount (Element t a r ch)" by (rule nodeCount_child)
  finally show ?case by simp
qed

section \<open>Post-processing: relative URIs over the article\<close>








section \<open>Post-processing: nested wrappers\<close>



text \<open>The attributes of the wrapper copied onto its child.\<close>

fun withAttributesOf :: "(string \<times> ustring) list \<Rightarrow> node \<Rightarrow> node" where
  "withAttributesOf pa (Text s) = Text s"
| "withAttributesOf pa (Element t a r ch) = Element t (copyAttributes pa a) r ch"

lemma nodeCount_withAttributesOf [simp]: "nodeCount (withAttributesOf pa n) = nodeCount n"
  by (cases n) auto




section \<open>Post-processing: classes\<close>






section \<open>Post-processing as a whole, and serialization\<close>





chapter \<open>The properties\<close>

section \<open>Results on content scoring\<close>

lemma splitOn_nonempty: "splitOn P s \<noteq> []"
  by (induction s) (auto split: list.splits)

lemma length_splitOn: "length (splitOn P s) = Suc (length (filter P s))"
  by (induction s) (auto split: list.splits simp: splitOn_nonempty)

lemma contentScore_value:
  "25 \<le> length t \<Longrightarrow>
   contentScore t = Some (2 + int (commaCount t) + min (int (length t) div 100) 3)"
  by (simp add: contentScore_def commaCount_def length_splitOn)

text \<open>
  Claim C2. The claim gives an element of at least 25 units the score
  1 + (number of commas) + min(floor(length / 100), 3). The code adds the number of
  pieces of the split, which is one more than the number of commas. On the inner text
  of 25 letters \<open>a\<close> (no comma, length below 100) the claim's value is 1 and the code
  computes 2.
\<close>

theorem contentScore_no_comma_is_2:
  "contentScore (replicate 25 97) = Some 2 \<and> commaCount (replicate 25 97) = 0"
  by (simp add: contentScore_def commaCount_def length_splitOn isComma_def)

section \<open>Results on retagging\<close>

lemma setAttr_fresh: "k \<notin> fst ` set kvs \<Longrightarrow> setAttr k v kvs = kvs @ [(k, v)]"
  by (induction kvs) auto

lemma copyAttributes_distinct:
  "distinct (map fst kvs) \<Longrightarrow> fst ` set kvs \<inter> fst ` set target = {} \<Longrightarrow>
   copyAttributes kvs target = target @ kvs"
proof (induction kvs arbitrary: target)
  case Nil
  then show ?case by simp
next
  case (Cons kv kvs)
  obtain k v where kv: "kv = (k, v)" by (cases kv)
  from Cons.prems kv have fresh: "k \<notin> fst ` set target" by auto
  from Cons.prems kv have "fst ` set kvs \<inter> fst ` set (target @ [(k, v)]) = {}"
    by (auto simp: image_iff)
  with Cons.IH [of "target @ [(k, v)]"] Cons.prems kv
  have "copyAttributes kvs (target @ [(k, v)]) = (target @ [(k, v)]) @ kvs" by simp
  with fresh kv show ?case by (simp add: setAttr_fresh)
qed

lemma setNodeTag_Element:
  assumes "distinct (map fst a)"
  shows "setNodeTag m (Element t a r ch) tag = Element (toUpperCase tag) a r ch"
proof (cases m)
  case True
  then show ?thesis by simp
next
  case False
  have "copyAttributes a [] = a"
    using copyAttributes_distinct [OF assms, of "[]"] by simp
  moreover have "(case r of Some sc \<Rightarrow> Some sc | None \<Rightarrow> None) = r"
    by (cases r) auto
  ultimately show ?thesis
    using False by (simp add: createElement_def moveChildren_append)
qed

text \<open>
  Claim C10. Retagging an element whose attribute names are distinct (as they are in
  every DOM) gives, under either parser, an element with the new tag name in upper
  case, the same annotation (so the same contentScore, or none when there was none),
  the same attributes with the same values in the same order, and the same child nodes
  in the same order. \<open>_replaceNodeTags\<close>, through which font to span and h1 to h2 go,
  does this to every node of its list; div to p and the sibling normalisation to div
  call \<open>_setNodeTag\<close> directly.
\<close>

theorem setNodeTag_preserves:
  assumes "isElement e" and "distinct (map fst (attrsOf e))"
  shows "setNodeTag m e tag =
           Element (toUpperCase tag) (attributes e) (readability e) (childNodes e)
       \<and> readability (setNodeTag m e tag) = readability e
       \<and> attributes (setNodeTag m e tag) = attributes e
       \<and> childNodes (setNodeTag m e tag) = childNodes e
       \<and> tagName (setNodeTag m e tag) = toUpperCase tag
       \<and> replaceNodeTags m [e] tag = [setNodeTag m e tag]"
proof -
  from assms(1) obtain t a r ch where e: "e = Element t a r ch"
    by (cases e) auto
  with assms(2) have "distinct (map fst a)" by simp
  then have "setNodeTag m e tag = Element (toUpperCase tag) a r ch"
    unfolding e by (rule setNodeTag_Element)
  then show ?thesis by (simp add: e replaceNodeTags_def)
qed

text \<open>A scored \<open>font\<close> element with two attributes and two children, retagged to
  \<open>span\<close> under a real DOM.\<close>

theorem setNodeTag_preserves_witness:
  "isElement (Element ''FONT'' [(''face'', ascii ''Arial''), (''size'', ascii ''2'')] (Some 7)
               [Element ''B'' [] None [Text (ascii ''Lorem'')], Text (ascii '' ipsum'')])
   \<and> setNodeTag False
        (Element ''FONT'' [(''face'', ascii ''Arial''), (''size'', ascii ''2'')] (Some 7)
               [Element ''B'' [] None [Text (ascii ''Lorem'')], Text (ascii '' ipsum'')]) ''span''
     = Element ''SPAN'' [(''face'', ascii ''Arial''), (''size'', ascii ''2'')] (Some 7)
               [Element ''B'' [] None [Text (ascii ''Lorem'')], Text (ascii '' ipsum'')]"
  using setNodeTag_preserves [of "Element ''FONT'' [(''face'', ascii ''Arial''), (''size'', ascii ''2'')] (Some 7)
               [Element ''B'' [] None [Text (ascii ''Lorem'')], Text (ascii '' ipsum'')]" False "''span''"]
  by (simp add: toUpperCase_def upperChar_def)

section \<open>Results on the retry controller\<close>





section \<open>Results on the byline\<close>

text \<open>
  Claim C9. The slot of \<open>article:author\<close> in the priority chain holds a value only when
  the meta value is not a URL. So when no other author source gives a non-empty value
  (no JSON-LD byline, no \<open>dc:creator\<close>, \<open>dcterm:creator\<close>, \<open>author\<close> or
  \<open>parsely-author\<close>) and the \<open>article:author\<close> value is a URL, the byline of the metadata
  is \<open>undefined\<close>; when it is not a URL, the byline is that value (unescaped).
\<close>

theorem byline_article_author:
  assumes "\<not> truthy jsonld_byline" and "\<not> truthy (values ''dc:creator'')"
    and "\<not> truthy (values ''dcterm:creator'')" and "\<not> truthy (values ''author'')"
    and "\<not> truthy (values ''parsely-author'')"
    and "values ''article:author'' = Some v"
  shows "(articleAuthor isUrl values \<noteq> None \<longleftrightarrow> \<not> isUrl v)
       \<and> (isUrl v \<longrightarrow> metadataByline isUrl unescape jsonld_byline values = None)
       \<and> (\<not> isUrl v \<longrightarrow>
            metadataByline isUrl unescape jsonld_byline values
              = unescapeHtmlEntities unescape (Some v))"
  using assms
  by (simp add: metadataByline_def bylinePriority_def jsOr_def articleAuthor_def
        unescapeHtmlEntities_def truthy_def)

theorem byline_article_author_witness:
  "metadataByline (\<lambda>s. take 8 s = ascii ''https://'') (\<lambda>s. s) None
     [''article:author'' \<mapsto> ascii ''https://www.facebook.com/somebody''] = None
   \<and> metadataByline (\<lambda>s. take 8 s = ascii ''https://'') (\<lambda>s. s) None
     [''article:author'' \<mapsto> ascii ''Jane Doe''] = Some (ascii ''Jane Doe'')"
  using byline_article_author [of None "[''article:author'' \<mapsto> ascii ''https://www.facebook.com/somebody'']"
          "ascii ''https://www.facebook.com/somebody''" "\<lambda>s. take 8 s = ascii ''https://''" "\<lambda>s. s"]
        byline_article_author [of None "[''article:author'' \<mapsto> ascii ''Jane Doe'']"
          "ascii ''Jane Doe''" "\<lambda>s. take 8 s = ascii ''https://''" "\<lambda>s. s"]
  by (simp add: truthy_def ascii_def unescapeHtmlEntities_def)

section \<open>Results on relative URIs\<close>

lemma toAbsoluteURI_returns: "\<exists>r. toAbsoluteURI url b d uri = Inr r"
  by (simp add: toAbsoluteURI_def split: sum.splits)

lemma toAbsoluteURI_failure: "url uri b = Inl ex \<Longrightarrow> toAbsoluteURI url b d uri = Inr uri"
  by (simp add: toAbsoluteURI_def)

lemma srcsetReplace_returns:
  "(\<And>p. \<exists>r. f p = Inr r) \<Longrightarrow> \<exists>r. srcsetReplace f s = Inr r"
proof (induction f s rule: srcsetReplace.induct)
  case (1 f)
  then show ?case by simp
next
  case (2 f c cs)
  show ?case
  proof (cases "matchAt (c # cs)")
    case None
    with 2 show ?thesis by (auto split: sum.splits)
  next
    case (Some m)
    obtain p1 p2 p3 rest where m: "m = (p1, p2, p3, rest)" by (cases m)
    from "2.prems" obtain u where u: "f p1 = Inr u" by blast
    from "2.IH"(2) [OF Some [unfolded m] refl refl refl u] "2.prems"
    obtain t where "srcsetReplace f rest = Inr t" by blast
    with Some m u show ?thesis by simp
  qed
qed

lemma srcsetReplace_unchanged:
  "(\<And>p. p \<in> set (srcsetCandidates s) \<Longrightarrow> f p = Inr p) \<Longrightarrow> srcsetReplace f s = Inr s"
proof (induction f s rule: srcsetReplace.induct)
  case (1 f)
  then show ?case by simp
next
  case (2 f c cs)
  show ?case
  proof (cases "matchAt (c # cs)")
    case None
    with 2 show ?thesis by simp
  next
    case (Some m)
    obtain p1 p2 p3 rest where m: "m = (p1, p2, p3, rest)" by (cases m)
    from Some m "2.prems" have u: "f p1 = Inr p1" by simp
    from Some m "2.prems" have "\<And>p. p \<in> set (srcsetCandidates rest) \<Longrightarrow> f p = Inr p"
      by simp
    with "2.IH"(2) [OF Some [unfolded m] refl refl refl u]
    have r: "srcsetReplace f rest = Inr rest" by blast
    from Some m have eq: "p1 @ p2 @ p3 @ rest = c # cs"
      using matchAt_decomp [of "c # cs" p1 p2 p3 rest] by simp
    from Some m u r have "srcsetReplace f (c # cs) = Inr (p1 @ p2 @ p3 @ rest)"
      by simp
    then show ?thesis by (simp only: eq)
  qed
qed

text \<open>
  Claim C6. Rewriting an \<open>href\<close>, \<open>src\<close> or \<open>poster\<close> value and rewriting a \<open>srcset\<close>
  value always return a string and never an exception, whatever the URL constructor
  does. When the constructor throws on a value, the value is returned unchanged; a
  \<open>srcset\<close> all of whose URLs make the constructor throw is returned unchanged. When
  the base URI equals the document URI, a value beginning with \<open>#\<close> is returned
  unchanged.
\<close>

theorem uri_rewriting_never_throws:
  "(\<exists>r. rewriteUriAttribute url b d uri = Inr r)
   \<and> (\<exists>r. rewriteSrcset url b d srcset = Inr r)
   \<and> ((\<exists>ex. url uri b = Inl ex) \<longrightarrow> rewriteUriAttribute url b d uri = Inr uri)
   \<and> ((\<forall>p \<in> set (srcsetCandidates srcset). \<exists>ex. url p b = Inl ex) \<longrightarrow>
         rewriteSrcset url b d srcset = Inr srcset)
   \<and> (b = d \<and> charAt0 uri = ascii ''#'' \<longrightarrow> rewriteUriAttribute url b d uri = Inr uri)"
proof -
  have "\<exists>r. rewriteSrcset url b d srcset = Inr r"
    unfolding rewriteSrcset_def
    by (rule srcsetReplace_returns) (rule toAbsoluteURI_returns)
  moreover have "rewriteSrcset url b d srcset = Inr srcset"
    if "\<forall>p \<in> set (srcsetCandidates srcset). \<exists>ex. url p b = Inl ex"
    unfolding rewriteSrcset_def
    using that by (intro srcsetReplace_unchanged) (auto simp: toAbsoluteURI_failure)
  ultimately show ?thesis
    using toAbsoluteURI_returns [of url b d uri]
    by (auto simp: rewriteUriAttribute_def toAbsoluteURI_failure) (simp add: toAbsoluteURI_def)
qed

text \<open>A constructor that throws on every URI containing a space or when the base is
  empty, and otherwise prefixes the base; the base differs from the document URI in the
  first three conjuncts.\<close>

theorem uri_rewriting_never_throws_witness:
  "rewriteUriAttribute (\<lambda>u b. if b = [] \<or> 32 \<in> set u then Inl TypeError else Inr (b @ u))
       (ascii ''http://x.test/a/'') (ascii ''http://x.test/doc'') (ascii ''pic.jpg'')
     = Inr (ascii ''http://x.test/a/pic.jpg'')
   \<and> rewriteUriAttribute (\<lambda>u b. if b = [] \<or> 32 \<in> set u then Inl TypeError else Inr (b @ u))
       (ascii ''http://x.test/a/'') (ascii ''http://x.test/doc'') (ascii ''my pic.jpg'')
     = Inr (ascii ''my pic.jpg'')
   \<and> rewriteSrcset (\<lambda>u b. if b = [] \<or> 32 \<in> set u then Inl TypeError else Inr (b @ u))
       [] (ascii ''http://x.test/doc'') (ascii ''a.jpg 1x, b.jpg 2x'')
     = Inr (ascii ''a.jpg 1x, b.jpg 2x'')
   \<and> rewriteUriAttribute (\<lambda>u b. if b = [] \<or> 32 \<in> set u then Inl TypeError else Inr (b @ u))
       (ascii ''http://x.test/doc'') (ascii ''http://x.test/doc'') (ascii ''#top'')
     = Inr (ascii ''#top'')"
  using uri_rewriting_never_throws [of "\<lambda>u b. if b = [] \<or> 32 \<in> set u then Inl TypeError else Inr (b @ u)"
          "ascii ''http://x.test/a/''" "ascii ''http://x.test/doc''" "ascii ''my pic.jpg''" "[]"]
        uri_rewriting_never_throws [of "\<lambda>u b. if b = [] \<or> 32 \<in> set u then Inl TypeError else Inr (b @ u)"
          "[]" "ascii ''http://x.test/doc''" "[]" "ascii ''a.jpg 1x, b.jpg 2x''"]
        uri_rewriting_never_throws [of "\<lambda>u b. if b = [] \<or> 32 \<in> set u then Inl TypeError else Inr (b @ u)"
          "ascii ''http://x.test/doc''" "ascii ''http://x.test/doc''" "ascii ''#top''" "[]"]
  by (simp add: ascii_def rewriteUriAttribute_def toAbsoluteURI_def charAt0_def)

section \<open>Results on the article title\<close>

text \<open>When the final validation reverts: exactly under the condition of the source, in
  which the word count of the computed title is compared for inequality with the word
  count of the stripped original minus one.\<close>

lemma finalValidation_reverts:
  "finalValidation cur orig hier =
     (if wordCount (normalizeSpaces (trim cur)) \<le> 4 \<and>
         (\<not> hier \<or>
          int (wordCount (stripSeparators orig)) - int (wordCount (normalizeSpaces (trim cur))) \<noteq> 1)
      then orig else normalizeSpaces (trim cur))"
  by (auto simp: finalValidation_def Let_def)

text \<open>
  Claim C4. The claim has the computed title reverted exactly when it has at most 4
  words and either no hierarchical separator was found or the word count dropped by
  more than 1 against the original with the separators stripped. The code reverts when
  the drop is anything but 1. For the document title \<open>Foo Bar Baz / Site\<close> the
  computed title is \<open>Foo Bar Baz\<close>: 3 words, a hierarchical separator was found, and the
  stripped original \<open>Foo Bar BazSite\<close> has 3 words too, a drop of 0. The claim keeps
  \<open>Foo Bar Baz\<close>; the code returns the original title.
\<close>

theorem getArticleTitle_reverts_without_reduction:
  "getArticleTitle \<lparr>title = ascii ''Foo Bar Baz / Site'',
                    documentElement = Element ''HTML'' [] None []\<rparr>
     = Inr (ascii ''Foo Bar Baz / Site'')
   \<and> testSeparator isHierarchicalSeparator (ascii ''Foo Bar Baz / Site'')
   \<and> substringTo (ascii ''Foo Bar Baz / Site'')
        (int (last (separatorMatches 0 (ascii ''Foo Bar Baz / Site'')))) = ascii ''Foo Bar Baz''
   \<and> wordCount (ascii ''Foo Bar Baz'') = 3
   \<and> wordCount (stripSeparators (ascii ''Foo Bar Baz / Site'')) = 3
   \<and> finalValidation (ascii ''Foo Bar Baz'') (ascii ''Foo Bar Baz / Site'') True
       = ascii ''Foo Bar Baz / Site''"
proof -
  let ?orig = "ascii ''Foo Bar Baz / Site''"
  let ?cur = "ascii ''Foo Bar Baz''"
  have tr: "trim ?orig = ?orig"
    by (simp add: trim_def ascii_def isSpace_def)
  have sep: "testSeparator isTitleSeparator ?orig"
    by (simp add: ascii_def isSpace_def isTitleSeparator_def)
  have hier: "testSeparator isHierarchicalSeparator ?orig"
    by (simp add: ascii_def isSpace_def isHierarchicalSeparator_def)
  have idx: "separatorMatches 0 ?orig = [11]"
    by (simp add: ascii_def isSpace_def isTitleSeparator_def)
  have cut: "substringTo ?orig 11 = ?cur"
    by (simp add: substringTo_def ascii_def)
  have wc: "wordCount ?cur = 3"
    by (simp add: wordCount_def ascii_def isSpace_def)
  have strip: "stripSeparators ?orig = ascii ''Foo Bar BazSite''"
    by (simp add: ascii_def isSpace_def isTitleSeparator_def)
  have wcs: "wordCount (ascii ''Foo Bar BazSite'') = 3"
    by (simp add: wordCount_def ascii_def isSpace_def)
  have norm: "normalizeSpaces (trim ?cur) = ?cur"
    by (simp add: trim_def ascii_def isSpace_def)
  have fin: "finalValidation ?cur ?orig True = ?orig"
    by (simp add: finalValidation_def Let_def norm wc strip wcs)
  have "getArticleTitle \<lparr>title = ?orig, documentElement = Element ''HTML'' [] None []\<rparr>
          = Inr (finalValidation ?cur ?orig True)"
    by (simp add: getArticleTitle_def Let_def tr sep hier idx cut wc)
  with fin hier idx cut wc strip wcs show ?thesis by simp
qed

text \<open>The title that the document \<open>Foo Bar Baz / Site\<close> gets.\<close>

theorem getArticleTitle_reverts_without_reduction_witness:
  "getArticleTitle \<lparr>title = ascii ''Foo Bar Baz / Site'',
                    documentElement = Element ''HTML'' [] None []\<rparr>
     = Inr (ascii ''Foo Bar Baz / Site'')"
  by (rule getArticleTitle_reverts_without_reduction [THEN conjunct1])

section \<open>Results on the length of a normalized inner text\<close>

lemma trimEnd_Nil [simp]: "trimEnd [] = []"
  by (simp add: trimEnd_def)

lemma trimEnd_Cons:
  "trimEnd (c # cs) = (if list_all isSpace (c # cs) then [] else c # trimEnd cs)"
  by (auto simp: trimEnd_def dropWhile_append list_all_iff)

lemma trimEnd_all_space: "list_all isSpace s \<Longrightarrow> trimEnd s = []"
  by (induction s) (auto simp: trimEnd_Cons)

lemma trimEnd_hd: "\<not> list_all isSpace s \<Longrightarrow> trimEnd s \<noteq> [] \<and> hd (trimEnd s) = hd s"
  by (cases s) (auto simp: trimEnd_Cons)

lemma trimEnd_not_all_space: "\<not> list_all isSpace s \<Longrightarrow> \<not> list_all isSpace (trimEnd s)"
  by (induction s) (auto simp: trimEnd_Cons)

lemma trim_eq: "trim s = trimEnd (dropWhile isSpace s)"
  by (simp add: trim_def trimEnd_def)

lemma normalizeSpaces_run:
  assumes "r \<noteq> []" "isSpace (hd r)" "\<not> list_all isSpace r"
  shows "length (normalizeSpaces r) = Suc (length (normalizeSpaces (dropWhile isSpace r)))"
proof -
  from assms obtain a r' where r: "r = a # r'" "isSpace a" "\<not> list_all isSpace r'"
    by (cases r) auto
  then have "r' \<noteq> []" by auto
  show ?thesis
  proof (cases "isSpace (hd r')")
    case True
    with r \<open>r' \<noteq> []\<close> show ?thesis by simp
  next
    case False
    with \<open>r' \<noteq> []\<close> have "dropWhile isSpace r' = r'" by (cases r') auto
    with r False show ?thesis by simp
  qed
qed

lemma length_normalizeSpaces_trimEnd:
  "length (normalizeSpaces (trimEnd t)) = innerLength t"
proof (induction t)
  case Nil
  then show ?case by simp
next
  case (Cons c cs)
  show ?case
  proof (cases "isSpace c")
    case False
    with Cons show ?thesis by (simp add: trimEnd_Cons)
  next
    case sp: True
    show ?thesis
    proof (cases "list_all isSpace cs")
      case True
      with sp show ?thesis by (simp add: trimEnd_Cons)
    next
      case False
      then have ne: "trimEnd cs \<noteq> []" and hd: "hd (trimEnd cs) = hd cs"
        and nall: "\<not> list_all isSpace (trimEnd cs)"
        by (simp_all add: trimEnd_hd trimEnd_not_all_space)
      from sp False have te: "trimEnd (c # cs) = c # trimEnd cs"
        by (simp add: trimEnd_Cons)
      show ?thesis
      proof (cases "isSpace (hd cs)")
        case True
        with ne hd have "normalizeSpaces (c # trimEnd cs) =
            32 # normalizeSpaces (dropWhile isSpace (trimEnd cs))"
          using sp by simp
        moreover have "length (normalizeSpaces (trimEnd cs)) =
            Suc (length (normalizeSpaces (dropWhile isSpace (trimEnd cs))))"
          using ne hd True nall by (intro normalizeSpaces_run) simp_all
        ultimately show ?thesis using sp False True te Cons by simp
      next
        case nsp: False
        with ne hd have "normalizeSpaces (c # trimEnd cs) = c # normalizeSpaces (trimEnd cs)"
          by simp
        with sp False nsp te Cons show ?thesis by simp
      qed
    qed
  qed
qed

lemma normalizedLength_dropWhile: "normalizedLength (dropWhile isSpace s) = normalizedLength s"
  by (induction s) auto

lemma length_normalized_trim: "length (normalizeSpaces (trim s)) = normalizedLength s"
proof -
  have "length (normalizeSpaces (trimEnd u)) = normalizedLength u"
    if "u = [] \<or> \<not> isSpace (hd u)" for u
  proof (cases u)
    case Nil
    then show ?thesis by simp
  next
    case (Cons c cs)
    with that have nsp: "\<not> isSpace c" by simp
    then have "trimEnd (c # cs) = c # trimEnd cs" by (simp add: trimEnd_Cons)
    with nsp Cons show ?thesis by (simp add: length_normalizeSpaces_trimEnd)
  qed
  moreover have "dropWhile isSpace s = [] \<or> \<not> isSpace (hd (dropWhile isSpace s))"
    by (metis hd_dropWhile)
  ultimately show ?thesis
    by (simp add: trim_eq normalizedLength_dropWhile)
qed

lemma normalizedLength_all_space: "list_all isSpace s \<Longrightarrow> normalizedLength s = 0"
  by (induction s) auto

lemma normalizedLength_le_inner: "normalizedLength s \<le> innerLength s"
proof (induction s)
  case Nil
  then show ?case by simp
next
  case (Cons c cs)
  then show ?case by (auto simp: normalizedLength_all_space)
qed

lemma innerLength_append: "innerLength xs + normalizedLength ys \<le> innerLength (xs @ ys)"
proof (induction xs)
  case Nil
  then show ?case by (simp add: normalizedLength_le_inner)
next
  case (Cons c cs)
  show ?case
  proof (cases "isSpace c")
    case False
    with Cons show ?thesis by simp
  next
    case sp: True
    show ?thesis
    proof (cases "list_all isSpace cs")
      case allcs: True
      show ?thesis
      proof (cases "list_all isSpace ys")
        case True
        with sp allcs show ?thesis by (simp add: normalizedLength_all_space)
      next
        case False
        with sp allcs Cons show ?thesis by auto
      qed
    next
      case False
      then have "cs \<noteq> []" by auto
      with sp False Cons show ?thesis by auto
    qed
  qed
qed

lemma normalizedLength_append:
  "normalizedLength xs + normalizedLength ys \<le> normalizedLength (xs @ ys)"
proof (induction xs)
  case Nil
  then show ?case by simp
next
  case (Cons c cs)
  then show ?case using innerLength_append [of cs ys] by auto
qed

lemma normalizedLength_concat:
  "sum_list (map normalizedLength ss) \<le> normalizedLength (concat ss)"
proof (induction ss)
  case Nil
  then show ?case by simp
next
  case (Cons s ss)
  then show ?case using normalizedLength_append [of s "concat ss"] by simp
qed

section \<open>Results on link density\<close>

lemma getElementsByTagName_Element:
  "getElementsByTagName (Element t a r ch) tag =
     concat (map (\<lambda>c. (if isElement c \<and> nodeName c = tag then [c] else [])
                        @ getElementsByTagName c tag) ch)"
  by (induction ch) (auto simp: getElementsByTagName_def)

lemma getElementsByTagName_Text [simp]: "getElementsByTagName (Text s) tag = []"
  by (simp add: getElementsByTagName_def)

lemma sum_list_map_concat:
  "sum_list (map f (concat xss)) = sum_list (map (\<lambda>xs. sum_list (map f xs)) xss)"
  for f :: "'a \<Rightarrow> nat"
  by (induction xss) auto

lemma link_text_bound:
  "noNestedLinks e \<Longrightarrow>
   sum_list (map (\<lambda>a. normalizedLength (textContent a)) (getElementsByTagName e ''A''))
     \<le> normalizedLength (textContent e)"
proof (induction e)
  case (Text s)
  then show ?case by simp
next
  case (Element t a r ch)
  let ?f = "\<lambda>a. normalizedLength (textContent a)"
  let ?L = "\<lambda>c. (if isElement c \<and> nodeName c = ''A'' then [c] else [])
                 @ getElementsByTagName c ''A''"
  have links: "getElementsByTagName (Element t a r ch) ''A'' = concat (map ?L ch)"
    by (rule getElementsByTagName_Element)
  have each: "sum_list (map ?f (?L c)) \<le> normalizedLength (textContent c)" if c: "c \<in> set ch" for c
  proof (cases "isElement c \<and> nodeName c = ''A''")
    case True
    with c have "c \<in> set (getElementsByTagName (Element t a r ch) ''A'')"
      unfolding links by auto
    with Element.prems have "getElementsByTagName c ''A'' = []"
      by (simp add: noNestedLinks_def list_all_iff)
    with True show ?thesis by simp
  next
    case False
    from c have "set (getElementsByTagName c ''A'')
        \<subseteq> set (getElementsByTagName (Element t a r ch) ''A'')"
      unfolding links by auto
    with Element.prems have "noNestedLinks c"
      by (auto simp: noNestedLinks_def list_all_iff)
    with Element.IH [OF c] False show ?thesis by auto
  qed
  have "sum_list (map ?f (concat (map ?L ch))) = sum_list (map (\<lambda>c. sum_list (map ?f (?L c))) ch)"
    by (simp add: sum_list_map_concat comp_def)
  also have "\<dots> \<le> sum_list (map (\<lambda>c. normalizedLength (textContent c)) ch)"
    by (rule sum_list_mono) (rule each)
  also have "\<dots> = sum_list (map normalizedLength (map textContent ch))"
    by (simp add: comp_def)
  also have "\<dots> \<le> normalizedLength (concat (map textContent ch))"
    by (rule normalizedLength_concat)
  finally show ?case unfolding links by simp
qed

lemma foldl_add_sum_list:
  "foldl (\<lambda>acc x. acc + g x) z xs = z + sum_list (map g xs)" for z :: real
  by (induction xs arbitrary: z) auto

lemma linkCoefficient_range: "0 \<le> linkCoefficient a \<and> linkCoefficient a \<le> 1"
  by (simp add: linkCoefficient_def Let_def)

lemma getLinkDensity_sum:
  "getLinkDensity e =
     (if getInnerText e = [] then 0
      else (\<Sum>a\<leftarrow>getElementsByTagName e ''A''.
              real (length (getInnerText a)) * linkCoefficient a)
           / real (length (getInnerText e)))"
  by (simp add: getLinkDensity_def Let_def foldl_add_sum_list)

lemma weighted_link_length_bound:
  "(\<Sum>a\<leftarrow>ls. real (length (getInnerText a)) * linkCoefficient a)
     \<le> real (sum_list (map (\<lambda>a. normalizedLength (textContent a)) ls))"
proof (induction ls)
  case Nil
  then show ?case by simp
next
  case (Cons a ls)
  have "real (length (getInnerText a)) * linkCoefficient a \<le> real (length (getInnerText a))"
    using linkCoefficient_range [of a] by (simp add: mult_left_le)
  with Cons show ?case
    by (simp add: getInnerText_def length_normalized_trim)
qed

text \<open>
  Claim C5, amended. The link density is never negative; it is 0 when the element's
  inner text is empty, and otherwise the sum over the descendant \<open>a\<close> elements of their
  inner-text lengths, weighted by 0.3 for a hash link and by 1 otherwise, divided by the
  element's own inner-text length. It is at most 1 when no \<open>a\<close> element lies inside
  another one.
\<close>

theorem getLinkDensity_range:
  "0 \<le> getLinkDensity e
   \<and> (getInnerText e = [] \<longrightarrow> getLinkDensity e = 0)
   \<and> (getInnerText e \<noteq> [] \<longrightarrow>
        getLinkDensity e =
          (\<Sum>a\<leftarrow>getElementsByTagName e ''A''.
             real (length (getInnerText a)) * linkCoefficient a)
          / real (length (getInnerText e)))
   \<and> (noNestedLinks e \<longrightarrow> getLinkDensity e \<le> 1)"
proof -
  let ?S = "\<Sum>a\<leftarrow>getElementsByTagName e ''A''. real (length (getInnerText a)) * linkCoefficient a"
  have nonneg: "0 \<le> ?S"
    by (rule sum_list_nonneg) (auto simp: linkCoefficient_range)
  have "getLinkDensity e \<le> 1" if nn: "noNestedLinks e"
  proof (cases "getInnerText e = []")
    case True
    then show ?thesis by (simp add: getLinkDensity_sum)
  next
    case False
    have "?S \<le> real (sum_list (map (\<lambda>a. normalizedLength (textContent a))
                 (getElementsByTagName e ''A'')))"
      by (rule weighted_link_length_bound)
    also have "\<dots> \<le> real (normalizedLength (textContent e))"
      using link_text_bound [OF nn] by simp
    also have "\<dots> = real (length (getInnerText e))"
      by (simp add: getInnerText_def length_normalized_trim)
    finally have "?S \<le> real (length (getInnerText e))" .
    with False show ?thesis by (simp add: getLinkDensity_sum)
  qed
  with nonneg show ?thesis by (simp add: getLinkDensity_sum)
qed

text \<open>A \<open>div\<close> with one hash link of six units behind six units of text: density
  0.15. A \<open>div\<close> whose only text is two units inside an \<open>a\<close> inside an \<open>a\<close>: both
  links count the two units, and the density is 2.\<close>

theorem getLinkDensity_range_witness:
  "noNestedLinks (Element ''DIV'' [] None
       [Text (ascii ''hello ''),
        Element ''A'' [(''href'', ascii ''#a'')] None [Text (ascii ''worlds'')]])
   \<and> getLinkDensity (Element ''DIV'' [] None
       [Text (ascii ''hello ''),
        Element ''A'' [(''href'', ascii ''#a'')] None [Text (ascii ''worlds'')]]) \<le> 1
   \<and> getLinkDensity (Element ''DIV'' [] None
       [Text (ascii ''hello ''),
        Element ''A'' [(''href'', ascii ''#a'')] None [Text (ascii ''worlds'')]]) = 0.15"
proof -
  let ?e = "Element ''DIV'' [] None
       [Text (ascii ''hello ''),
        Element ''A'' [(''href'', ascii ''#a'')] None [Text (ascii ''worlds'')]]"
  have links: "getElementsByTagName ?e ''A''
      = [Element ''A'' [(''href'', ascii ''#a'')] None [Text (ascii ''worlds'')]]"
    by (simp add: getElementsByTagName_def)
  have nn: "noNestedLinks ?e"
    by (simp add: noNestedLinks_def links) (simp add: getElementsByTagName_def)
  have t1: "getInnerText ?e = ascii ''hello worlds''"
    by (simp add: getInnerText_def trim_def ascii_def isSpace_def)
  have t2: "getInnerText (Element ''A'' [(''href'', ascii ''#a'')] None [Text (ascii ''worlds'')])
      = ascii ''worlds''"
    by (simp add: getInnerText_def trim_def ascii_def isSpace_def)
  have co: "linkCoefficient (Element ''A'' [(''href'', ascii ''#a'')] None [Text (ascii ''worlds'')])
      = 0.3"
    by (simp add: linkCoefficient_def getAttribute_def truthy_def hashUrl_test_def ascii_def
          isLineTerminator_def)
  have ne: "getInnerText ?e \<noteq> []"
    unfolding t1 by (simp add: ascii_def)
  from getLinkDensity_range [of ?e] nn ne
  have le: "getLinkDensity ?e \<le> 1"
    and eq: "getLinkDensity ?e = (\<Sum>a\<leftarrow>getElementsByTagName ?e ''A''.
             real (length (getInnerText a)) * linkCoefficient a)
          / real (length (getInnerText ?e))"
    by blast+
  have "getLinkDensity ?e = 0.15"
    unfolding eq by (simp add: links t1 t2 co) (simp add: ascii_def)
  with nn le show ?thesis by blast
qed

theorem getLinkDensity_nested_links_exceed_1:
  "getLinkDensity (Element ''DIV'' [] None
       [Element ''A'' [] None [Element ''A'' [] None [Text (ascii ''xx'')]]]) = 2
   \<and> \<not> getLinkDensity (Element ''DIV'' [] None
       [Element ''A'' [] None [Element ''A'' [] None [Text (ascii ''xx'')]]]) \<le> 1"
proof -
  let ?e = "Element ''DIV'' [] None
       [Element ''A'' [] None [Element ''A'' [] None [Text (ascii ''xx'')]]]"
  have links: "getElementsByTagName ?e ''A''
      = [Element ''A'' [] None [Element ''A'' [] None [Text (ascii ''xx'')]],
         Element ''A'' [] None [Text (ascii ''xx'')]]"
    by (simp add: getElementsByTagName_def)
  have t: "getInnerText ?e = ascii ''xx''"
    "getInnerText (Element ''A'' [] None [Element ''A'' [] None [Text (ascii ''xx'')]]) = ascii ''xx''"
    "getInnerText (Element ''A'' [] None [Text (ascii ''xx'')]) = ascii ''xx''"
    by (simp_all add: getInnerText_def trim_def ascii_def isSpace_def)
  have co: "linkCoefficient (Element ''A'' [] None [Element ''A'' [] None [Text (ascii ''xx'')]]) = 1"
    "linkCoefficient (Element ''A'' [] None [Text (ascii ''xx'')]) = 1"
    by (simp_all add: linkCoefficient_def getAttribute_def truthy_def)
  have "getLinkDensity ?e = 2"
    by (simp add: getLinkDensity_sum links t co) (simp add: ascii_def)
  then show ?thesis by simp
qed

section \<open>Results on sibling assembly\<close>

lemma ascii_eq_Nil [simp]: "ascii s = [] \<longleftrightarrow> s = []"
  by (simp add: ascii_def)

lemma siblingAppend_claimed:
  "siblingAppend (max 10 (topScore * 0.2)) topScore tc isTop sibling
     = claimedAppend topScore tc isTop sibling"
  by (auto simp: siblingAppend_def claimedAppend_def Let_def Suc_le_eq split: option.splits)

lemma siblingLoop_filter:
  "siblingLoop m tc ts T (int (length pre)) (int (length pre + length rest)) (pre @ rest) art
     = Inr (art @ map (\<lambda>(isTop, sb). normalizeSibling m sb)
                    (filter (\<lambda>(isTop, sb). siblingAppend T ts tc isTop sb) rest),
            pre @ filter (\<lambda>(isTop, sb). \<not> siblingAppend T ts tc isTop sb) rest)"
proof (induction rest arbitrary: pre art)
  case Nil
  show ?case by (subst siblingLoop.simps) simp
next
  case (Cons x rest)
  obtain isTop sb where x: "x = (isTop, sb)" by (cases x)
  show ?case
  proof (cases "siblingAppend T ts tc isTop sb")
    case True
    have "siblingLoop m tc ts T (int (length pre)) (int (length pre + length (x # rest)))
            (pre @ x # rest) art
          = siblingLoop m tc ts T (int (length pre)) (int (length pre + length rest))
              (pre @ rest) (art @ [normalizeSibling m sb])"
      by (subst siblingLoop.simps) (simp add: x True nth_append)
    with Cons.IH [of pre "art @ [normalizeSibling m sb]"] True x show ?thesis by simp
  next
    case False
    have "siblingLoop m tc ts T (int (length pre)) (int (length pre + length (x # rest)))
            (pre @ x # rest) art
          = siblingLoop m tc ts T (int (length (pre @ [x])))
              (int (length (pre @ [x]) + length rest)) ((pre @ [x]) @ rest) art"
      by (subst siblingLoop.simps) (simp add: x False nth_append ac_simps)
    with Cons.IH [of "pre @ [x]" art] False x show ?thesis by simp
  qed
qed

text \<open>
  Claim C3. With the threshold \<open>max 10 (topScore * 0.2)\<close>, the loop visits the children
  of the top candidate's parent once each in document order. The children of the
  article content are, in this order, exactly the siblings that satisfy the condition
  of the claim (the top candidate itself; a sibling whose score plus class bonus reaches
  the threshold; a remaining \<open>P\<close> of more than 80 units with link density below 0.25,
  or of 1 to 79 units with link density 0 and a period before a space or the end), each
  retagged to \<open>DIV\<close> unless its tag is one of the exceptions; the others stay in the
  parent.
\<close>

theorem sibling_assembly:
  assumes "readabilityOf tc = Some topScore"
  shows "assembleSiblings m tc sibs =
           Inr (map (\<lambda>(isTop, sb). normalizeSibling m sb)
                  (filter (\<lambda>(isTop, sb). claimedAppend topScore tc isTop sb) sibs),
                filter (\<lambda>(isTop, sb). \<not> claimedAppend topScore tc isTop sb) sibs)"
proof -
  have "siblingLoop m tc topScore (max 10 (topScore * 0.2)) 0 (int (length sibs)) sibs []
      = Inr (map (\<lambda>(isTop, sb). normalizeSibling m sb)
               (filter (\<lambda>(isTop, sb).
                  siblingAppend (max 10 (topScore * 0.2)) topScore tc isTop sb) sibs),
             filter (\<lambda>(isTop, sb).
                  \<not> siblingAppend (max 10 (topScore * 0.2)) topScore tc isTop sb) sibs)"
    using siblingLoop_filter [of m tc topScore "max 10 (topScore * 0.2)" "[]" sibs "[]"]
    by simp
  then have "siblingLoop m tc topScore (max 10 (topScore * 0.2)) 0 (int (length sibs)) sibs []
      = Inr (map (\<lambda>(isTop, sb). normalizeSibling m sb)
               (filter (\<lambda>(isTop, sb). claimedAppend topScore tc isTop sb) sibs),
             filter (\<lambda>(isTop, sb). \<not> claimedAppend topScore tc isTop sb) sibs)"
    unfolding siblingAppend_claimed .
  with assms show ?thesis
    by (simp add: assembleSiblings_def)
qed

text \<open>A parent with five children: a heading without score, the top candidate (score
  50, class \<open>post\<close>), a table cell of the same class with score 2, a short paragraph that
  ends in a period, and a short paragraph without period.\<close>

theorem sibling_assembly_witness:
  "assembleSiblings False
     (Element ''DIV'' [(''class'', ascii ''post'')] (Some 50) [Text (ascii ''Body'')])
     (markTop 1
       [Element ''H2'' [] None [Text (ascii ''Title'')],
        Element ''DIV'' [(''class'', ascii ''post'')] (Some 50) [Text (ascii ''Body'')],
        Element ''TD'' [(''class'', ascii ''post'')] (Some 2) [Text (ascii ''x'')],
        Element ''P'' [] None [Text (ascii ''Short one.'')],
        Element ''P'' [] None [Text (ascii ''No period'')]])
   = Inr ([Element ''DIV'' [(''class'', ascii ''post'')] (Some 50) [Text (ascii ''Body'')],
           Element ''DIV'' [(''class'', ascii ''post'')] (Some 2) [Text (ascii ''x'')],
           Element ''P'' [] None [Text (ascii ''Short one.'')]],
          [(False, Element ''H2'' [] None [Text (ascii ''Title'')]),
           (False, Element ''P'' [] None [Text (ascii ''No period'')])])"
proof -
  let ?tc = "Element ''DIV'' [(''class'', ascii ''post'')] (Some 50) [Text (ascii ''Body'')]"
  let ?h = "Element ''H2'' [] None [Text (ascii ''Title'')]"
  let ?td = "Element ''TD'' [(''class'', ascii ''post'')] (Some 2) [Text (ascii ''x'')]"
  let ?p1 = "Element ''P'' [] None [Text (ascii ''Short one.'')]"
  let ?p2 = "Element ''P'' [] None [Text (ascii ''No period'')]"
  have mark: "markTop 1 [?h, ?tc, ?td, ?p1, ?p2]
      = [(False, ?h), (True, ?tc), (False, ?td), (False, ?p1), (False, ?p2)]"
    by (simp add: markTop_def enumerate_eq_zip upt_rec)
  have t1: "getInnerText ?p1 = ascii ''Short one.''"
    and t2: "getInnerText ?p2 = ascii ''No period''"
    by (simp_all add: getInnerText_def trim_def ascii_def isSpace_def)
  have d: "getLinkDensity ?p1 = 0" "getLinkDensity ?p2 = 0"
    by (simp_all add: getLinkDensity_def getElementsByTagName_def Let_def)
  have s1: "searchSentenceEnd (ascii ''Short one.'')"
    and s2: "\<not> searchSentenceEnd (ascii ''No period'')"
    by (simp_all add: ascii_def)
  have l: "length (ascii ''Short one.'') = 10" "length (ascii ''No period'') = 9"
    by (simp_all add: ascii_def)
  have a: "\<not> claimedAppend 50 ?tc False ?h" "claimedAppend 50 ?tc True ?tc"
    "claimedAppend 50 ?tc False ?td" "claimedAppend 50 ?tc False ?p1"
    "\<not> claimedAppend 50 ?tc False ?p2"
    by (simp_all add: claimedAppend_def className_def getAttribute_def t1 t2 d s1 s2 l)
  have n: "normalizeSibling False ?tc = ?tc" "normalizeSibling False ?p1 = ?p1"
    "normalizeSibling False ?td
       = Element ''DIV'' [(''class'', ascii ''post'')] (Some 2) [Text (ascii ''x'')]"
    by (simp_all add: normalizeSibling_def ALTER_TO_DIV_EXCEPTIONS_def createElement_def
          toUpperCase_def upperChar_def)
  from sibling_assembly [of ?tc 50 False "markTop 1 [?h, ?tc, ?td, ?p1, ?p2]"]
  show ?thesis unfolding mark by (simp add: a n)
qed

section \<open>Results on single-cell tables\<close>

lemma firstElementChild_isElement: "firstElementChild n = Some c \<Longrightarrow> isElement c"
proof -
  assume "firstElementChild n = Some c"
  then have "c \<in> set (children n)"
    by (auto simp: firstElementChild_def split: list.splits)
  then show ?thesis by (cases n) (auto simp: children_def)
qed

text \<open>
  Claim C8. Let a \<open>table\<close> have a single \<open>TBODY\<close> inside, that a single \<open>TR\<close> and that
  a single \<open>TD\<close>, each in the sense of the code's test \<open>_hasSingleTagInsideElement\<close>
  (exactly one element child, of that tag, and no text child with content). Then the
  callback replaces the table by the cell retagged to \<open>P\<close> when all child nodes of the
  cell are phrasing content and to \<open>DIV\<close> otherwise, with the cell's attributes,
  annotation and children; and in the converted parent this element (converted in turn,
  for the tables inside it) stands where the table stood.
\<close>

theorem single_cell_table_flattened:
  assumes "nodeName table = ''TABLE''"
    and "hasSingleTagInsideElement hc table ''TBODY''" and "firstElementChild table = Some tbody"
    and "hasSingleTagInsideElement hc tbody ''TR''" and "firstElementChild tbody = Some row"
    and "hasSingleTagInsideElement hc row ''TD''" and "firstElementChild row = Some cell"
    and "distinct (map fst (attrsOf cell))"
  shows "singleCellReplacement m hc table =
           Some (Element (if list_all isPhrasingContent (childNodesOf cell) then ''P'' else ''DIV'')
                   (attrsOf cell) (readabilityOf cell) (childNodesOf cell))
       \<and> convertSingleCellTables m hc (Element t a r (pre @ table # post)) =
           Element t a r
             (map (\<lambda>c. convertSingleCellTables m hc (replaceTable m hc c)) pre
              @ convertSingleCellTables m hc
                  (Element (if list_all isPhrasingContent (childNodesOf cell) then ''P'' else ''DIV'')
                     (attrsOf cell) (readabilityOf cell) (childNodesOf cell))
              # map (\<lambda>c. convertSingleCellTables m hc (replaceTable m hc c)) post)"
proof -
  from assms(7) have "isElement cell" by (rule firstElementChild_isElement)
  then obtain ct ca cr cch where cell: "cell = Element ct ca cr cch"
    by (cases cell) auto
  with assms(8) have d: "distinct (map fst ca)" by simp
  have up: "toUpperCase ''P'' = ''P''" "toUpperCase ''DIV'' = ''DIV''"
    by (simp_all add: toUpperCase_def upperChar_def)
  have retag: "setNodeTag m cell (if list_all isPhrasingContent (childNodesOf cell) then ''P'' else ''DIV'')
      = Element (if list_all isPhrasingContent (childNodesOf cell) then ''P'' else ''DIV'')
          (attrsOf cell) (readabilityOf cell) (childNodesOf cell)"
    unfolding cell using setNodeTag_Element [OF d, of m ct cr cch] up by simp
  have repl: "singleCellReplacement m hc table =
      Some (Element (if list_all isPhrasingContent (childNodesOf cell) then ''P'' else ''DIV'')
              (attrsOf cell) (readabilityOf cell) (childNodesOf cell))"
    using assms(2-7) retag by (simp add: singleCellReplacement_def)
  with assms(1) have "replaceTable m hc table =
      Element (if list_all isPhrasingContent (childNodesOf cell) then ''P'' else ''DIV'')
        (attrsOf cell) (readabilityOf cell) (childNodesOf cell)"
    by (simp add: replaceTable_def)
  with repl show ?thesis by simp
qed

text \<open>The table \<open>table, tbody, tr, td, em, Hi\<close> inside an article; text with content is
  text that ends in a unit that is not whitespace.\<close>

theorem single_cell_table_flattened_witness:
  "convertSingleCellTables False (\<lambda>s. s \<noteq> [] \<and> \<not> isSpace (last s))
     (Element ''DIV'' [] None
        [Element ''TABLE'' [] None
           [Element ''TBODY'' [] None
              [Element ''TR'' [] None
                 [Element ''TD'' [] None [Element ''EM'' [] None [Text (ascii ''Hi'')]]]]]])
   = Element ''DIV'' [] None
       [Element ''P'' [] None [Element ''EM'' [] None [Text (ascii ''Hi'')]]]"
proof -
  let ?hc = "\<lambda>s. s \<noteq> [] \<and> \<not> isSpace (last s)"
  let ?cell = "Element ''TD'' [] None [Element ''EM'' [] None [Text (ascii ''Hi'')]]"
  let ?row = "Element ''TR'' [] None [?cell]"
  let ?tbody = "Element ''TBODY'' [] None [?row]"
  let ?table = "Element ''TABLE'' [] None [?tbody]"
  have h: "hasSingleTagInsideElement ?hc ?table ''TBODY''"
    "hasSingleTagInsideElement ?hc ?tbody ''TR''"
    "hasSingleTagInsideElement ?hc ?row ''TD''"
    by (simp_all add: hasSingleTagInsideElement_def children_def)
  have f: "firstElementChild ?table = Some ?tbody" "firstElementChild ?tbody = Some ?row"
    "firstElementChild ?row = Some ?cell"
    by (simp_all add: firstElementChild_def children_def)
  have ph: "list_all isPhrasingContent (childNodesOf ?cell)"
    by (simp add: PHRASING_ELEMS_def)
  have ph': "(if list_all isPhrasingContent (childNodesOf ?cell) then ''P'' else ''DIV'') = ''P''"
    using ph by simp
  have n: "nodeName ?table = ''TABLE''" and d: "distinct (map fst (attrsOf ?cell))"
    by simp_all
  note flat = single_cell_table_flattened [of ?table ?hc ?tbody ?row ?cell False "''DIV''" "[]" None
      "[]" "[]", OF n h(1) f(1) h(2) f(2) h(3) f(3) d, unfolded ph', THEN conjunct2]
  then show ?thesis by (simp add: replaceTable_def)
qed

section \<open>Results on post-processing\<close>

lemma isSpace_32 [simp]: "isSpace 32"
  by (simp add: isSpace_def)

lemma Nil_eq_ascii [simp]: "[] = ascii s \<longleftrightarrow> s = []"
  by (simp add: ascii_def)

lemma trim_Nil [simp]: "trim [] = []"
  by (simp add: trim_def)



lemma map_of_setAttr [simp]: "map_of (setAttr k v kvs) k = Some v"
  by (induction kvs) auto

lemma setAttr_idem [simp]: "setAttr k v (setAttr k v kvs) = setAttr k v kvs"
  by (induction kvs) auto

lemma map_of_removeAttr [simp]: "map_of (removeAttr k kvs) k = None"
  by (induction kvs) (auto simp: removeAttr_def)

lemma removeAttr_idem [simp]: "removeAttr k (removeAttr k kvs) = removeAttr k kvs"
  by (simp add: removeAttr_def)

















end
